theory Spec2Isabelle
  imports Main "HOL-Library.Multiset"
begin

section \<open>Byte strings and decimal numerals\<close>

text \<open>
  Go strings and byte slices are sequences of bytes; they are modelled as \<open>string\<close>
  (a list of 8-bit characters), so \<open>length\<close> is Go's \<open>len\<close> and \<open>take n\<close> is the
  slice \<open>s[:n]\<close> whenever \<open>n \<le> len(s)\<close>.
\<close>

definition digitChar :: "nat \<Rightarrow> char" where
  "digitChar d = ''0123456789'' ! d"

text \<open>The decimal digits of a non-negative integer, most significant first.\<close>

function decimal :: "int \<Rightarrow> string" where
  "decimal n =
     (if n < 10 then [digitChar (nat n)]
      else decimal (n div 10) @ [digitChar (nat (n mod 10))])"
  by pat_completeness auto
termination
  by (relation "measure nat") auto

declare decimal.simps [simp del]

text \<open>The verb \<open>%d\<close> of package fmt on a signed integer.\<close>

definition fmt_d :: "int \<Rightarrow> string" where
  "fmt_d x = (if x < 0 then CHR ''-'' # decimal (- x) else decimal x)"

definition digitVal :: "char \<Rightarrow> int" where
  "digitVal c = of_char c - 48"

definition decimalValue :: "string \<Rightarrow> int" where
  "decimalValue ds = foldl (\<lambda>a c. 10 * a + digitVal c) 0 ds"

definition maxInt64 :: int where
  "maxInt64 = 9223372036854775807"

definition minInt64 :: int where
  "minInt64 = - 9223372036854775808"

text \<open>
  \<open>strconv.ParseInt(s, 10, 64)\<close>: an optional sign and a non-empty run of ASCII digits
  whose value fits a signed 64-bit integer; everything else is an error (\<open>None\<close>).
\<close>

definition ParseInt :: "string \<Rightarrow> int option" where
  "ParseInt s =
     (let neg = (take 1 s = ''-'');
          ds = (if take 1 s = ''+'' \<or> take 1 s = ''-'' then drop 1 s else s)
      in if ds = [] \<or> (\<exists>c \<in> set ds. c \<notin> set ''0123456789'') then None
         else if neg then (if decimalValue ds > maxInt64 + 1 then None else Some (- decimalValue ds))
         else (if decimalValue ds > maxInt64 then None else Some (decimalValue ds)))"

section \<open>Regular expressions with leftmost-first submatches\<close>

text \<open>
  Package regexp reports the match a backtracking matcher finds first. The model
  enumerates the ways a pattern can match a prefix of the input, in that order of
  preference, each with the text still unread and the submatches recorded so far.
  \<open>Cls False cs\<close> is the character class of the bytes in \<open>cs\<close>, \<open>Cls True cs\<close> its
  complement; \<open>Star\<close>, \<open>Plus\<close> and \<open>Opt\<close> are the greedy operators; \<open>Grp k r\<close> is the
  capturing group number \<open>k\<close>; \<open>EndText\<close> is \<open>$\<close> (without the multi-line flag).
\<close>

datatype regex =
    Lit string
  | Cls bool "char list"
  | Seq regex regex
  | Alt regex regex
  | Star regex
  | Plus regex
  | Opt regex
  | Grp nat regex
  | EndText

type_synonym captures = "nat \<Rightarrow> string option"
type_synonym mstate = "string \<times> captures"

fun iter :: "(mstate \<Rightarrow> mstate list) \<Rightarrow> nat \<Rightarrow> mstate \<Rightarrow> mstate list" where
  "iter f 0 st = [st]"
| "iter f (Suc n) st =
     concat (map (iter f n) (filter (\<lambda>st'. length (fst st') < length (fst st)) (f st))) @ [st]"

primrec ms :: "regex \<Rightarrow> mstate \<Rightarrow> mstate list" where
  "ms (Lit w) st =
     (if take (length w) (fst st) = w then [(drop (length w) (fst st), snd st)] else [])"
| "ms (Cls neg cs) st =
     (case fst st of
        [] \<Rightarrow> []
      | x # xs \<Rightarrow> if (x \<in> set cs) \<noteq> neg then [(xs, snd st)] else [])"
| "ms (Seq a b) st = concat (map (ms b) (ms a st))"
| "ms (Alt a b) st = ms a st @ ms b st"
| "ms (Star r) st = iter (ms r) (length (fst st)) st"
| "ms (Plus r) st = concat (map (\<lambda>st'. iter (ms r) (length (fst st')) st') (ms r st))"
| "ms (Opt r) st = ms r st @ [st]"
| "ms (Grp k r) st =
     map (\<lambda>st'. (fst st', (snd st')(k \<mapsto> take (length (fst st) - length (fst st')) (fst st))))
       (ms r st)"
| "ms EndText st = (if fst st = [] then [st] else [])"

fun cat :: "regex list \<Rightarrow> regex" where
  "cat [] = Lit []"
| "cat [r] = r"
| "cat (r # rs) = Seq r (cat rs)"

text \<open>
  \<open>FindSubmatch\<close> for a pattern that starts with \<open>^\<close>: the match is tried at offset 0
  only, and the first way to match is the one reported. A group that took no part in the
  match is reported as the empty slice.
\<close>

definition FindSubmatch :: "regex \<Rightarrow> string \<Rightarrow> captures option" where
  "FindSubmatch re s = (case ms re (s, Map.empty) of [] \<Rightarrow> None | st # _ \<Rightarrow> Some (snd st))"

definition submatch :: "captures \<Rightarrow> nat \<Rightarrow> string" where
  "submatch m k = (case m k of None \<Rightarrow> [] | Some t \<Rightarrow> t)"

section \<open>The semantic-version library\<close>

text \<open>
  The repository parses and orders tags with github.com/Masterminds/semver (the version 1
  API: \<open>NewVersion\<close>, \<open>Prerelease\<close>, \<open>IncPatch\<close>, \<open>String\<close>, \<open>Collection\<close>). The
  definitions of this section follow that library.
\<close>

record Version =
  major :: int
  minor :: int
  patch :: int
  pre :: string
  metadata :: string
  original :: string

definition digits :: "char list" where
  "digits = ''0123456789''"

definition identChars :: "char list" where
  "identChars = ''0123456789ABCDEFGHIJKLMNOPQRSTUVWXYZabcdefghijklmnopqrstuvwxyz-''"

definition dotted :: "nat \<Rightarrow> regex" where
  "dotted k = Seq (Plus (Cls False identChars))
                (Star (Grp k (Seq (Lit ''.'') (Plus (Cls False identChars)))))"

text \<open>
  The library's pattern, anchored at both ends:
  \<^verbatim>\<open>^v?([0-9]+)(\.[0-9]+)?(\.[0-9]+)?(-([0-9A-Za-z\-]+(\.[0-9A-Za-z\-]+)*))?(\+([0-9A-Za-z\-]+(\.[0-9A-Za-z\-]+)*))?$\<close>
\<close>

definition versionRegex :: regex where
  "versionRegex = cat
     [Opt (Lit ''v''),
      Grp 1 (Plus (Cls False digits)),
      Opt (Grp 2 (Seq (Lit ''.'') (Plus (Cls False digits)))),
      Opt (Grp 3 (Seq (Lit ''.'') (Plus (Cls False digits)))),
      Opt (Grp 4 (Seq (Lit ''-'') (Grp 5 (dotted 6)))),
      Opt (Grp 7 (Seq (Lit ''+'') (Grp 8 (dotted 9)))),
      EndText]"

definition TrimPrefix :: "string \<Rightarrow> string \<Rightarrow> string" where
  "TrimPrefix s p = (if take (length p) s = p then drop (length p) s else s)"

text \<open>
  \<open>NewVersion\<close> fails (here: \<open>None\<close>) when the pattern does not match and when a
  numeric segment does not fit 64 bits; a missing minor or patch segment is zero.
\<close>

definition NewVersion :: "string \<Rightarrow> Version option" where
  "NewVersion v =
     (case FindSubmatch versionRegex v of
        None \<Rightarrow> None
      | Some m \<Rightarrow>
          (case ParseInt (submatch m 1) of
             None \<Rightarrow> None
           | Some mj \<Rightarrow>
               (case (if submatch m 2 \<noteq> [] then ParseInt (TrimPrefix (submatch m 2) ''.'') else Some 0) of
                  None \<Rightarrow> None
                | Some mi \<Rightarrow>
                    (case (if submatch m 3 \<noteq> [] then ParseInt (TrimPrefix (submatch m 3) ''.'') else Some 0) of
                       None \<Rightarrow> None
                     | Some pa \<Rightarrow>
                         Some \<lparr>major = mj, minor = mi, patch = pa, pre = submatch m 5,
                               metadata = submatch m 8, original = v\<rparr>))))"

definition Prerelease :: "Version \<Rightarrow> string" where
  "Prerelease v = pre v"

text \<open>\<open>String\<close> prints the parsed fields; the original spelling plays no part.\<close>

definition String :: "Version \<Rightarrow> string" where
  "String v =
     fmt_d (major v) @ ''.'' @ fmt_d (minor v) @ ''.'' @ fmt_d (patch v)
       @ (if pre v \<noteq> [] then ''-'' @ pre v else [])
       @ (if metadata v \<noteq> [] then ''+'' @ metadata v else [])"

definition originalVPrefix :: "Version \<Rightarrow> string" where
  "originalVPrefix v = (if original v \<noteq> [] \<and> take 1 (original v) = ''v'' then ''v'' else [])"

text \<open>The patch number is a signed 64-bit integer: incrementing the largest one wraps.\<close>

definition wrap64 :: "int \<Rightarrow> int" where
  "wrap64 x = (x + 2 ^ 63) mod 2 ^ 64 - 2 ^ 63"

definition IncPatch :: "Version \<Rightarrow> Version" where
  "IncPatch v =
     (let vNext =
        (if pre v \<noteq> [] then v\<lparr>metadata := [], pre := []\<rparr>
         else v\<lparr>metadata := [], pre := [], patch := wrap64 (patch v + 1)\<rparr>)
      in vNext\<lparr>original := originalVPrefix v @ String vNext\<rparr>)"









section \<open>Commit times\<close>

text \<open>
  A \<open>time.Time\<close> as \<open>Format\<close> reads it: the calendar date and the clock in the
  time's own location.
\<close>

record Time =
  year :: int
  month :: int
  day :: int
  hour :: int
  minute :: int
  second :: int

text \<open>
  \<open>appendInt\<close> of package time: the decimal form of \<open>x\<close>, padded with zeros to at
  least \<open>width\<close> digits, after a minus sign when \<open>x\<close> is negative.
\<close>

definition appendInt :: "int \<Rightarrow> nat \<Rightarrow> string" where
  "appendInt x width =
     (let u = (if x < 0 then - x else x); ds = decimal u
      in (if x < 0 then ''-'' else []) @ replicate (width - length ds) CHR ''0'' @ ds)"

text \<open>\<open>t.Format("20060102150405")\<close>: year, month, day, hour, minute, second.\<close>

definition Format :: "Time \<Rightarrow> string" where
  "Format t =
     appendInt (year t) 4 @ appendInt (month t) 2 @ appendInt (day t) 2
       @ appendInt (hour t) 2 @ appendInt (minute t) 2 @ appendInt (second t) 2"

section \<open>Pseudo-versions\<close>

text \<open>
  The status a finished process leaves behind, as \<open>syscall.WaitStatus\<close> presents it:
  the process exited with a status, or was ended by a signal, or is stopped.
\<close>

datatype WaitStatus = WExited int | WSignaled int | WStopped int

fun Exited :: "WaitStatus \<Rightarrow> bool" where
  "Exited (WExited n) = True"
| "Exited _ = False"

fun ExitStatus :: "WaitStatus \<Rightarrow> int" where
  "ExitStatus (WExited n) = n"
| "ExitStatus _ = - 1"

text \<open>
  Error values: the package's two sentinel errors, \<open>io.EOF\<close>, an \<open>*exec.ExitError\<close>
  with what its \<open>Sys()\<close> gives when that is a \<open>syscall.WaitStatus\<close>, an error wrapped
  with a message by \<open>errors.Wrap\<close>, and any other error.
\<close>

datatype error =
    ErrorVersionNotFound
  | ErrorUnknownVCS
  | EOF
  | ExitError "WaitStatus option"
  | Wrap error string
  | Error string

text \<open>
  A call either returns or panics; a returned \<open>Inl err\<close> is Go's pair of the zero
  value and the non-nil error \<open>err\<close>, a returned \<open>Inr x\<close> the pair of \<open>x\<close> and
  \<open>nil\<close>.
\<close>

datatype 'a outcome = Returns 'a | Panics

record Describable =
  ReachableTag :: "string \<Rightarrow> error + string"
  TimeFromRevision :: "string \<Rightarrow> error + Time"

text \<open>
  The first half of \<open>PseudoVersion\<close>: the base version and the suffix chosen from the
  reachable tag.
\<close>

definition baseVersion :: "Describable \<Rightarrow> string \<Rightarrow> error + (string \<times> string)" where
  "baseVersion d revision =
     (case ReachableTag d revision of
        Inl err \<Rightarrow>
          if err = ErrorVersionNotFound then Inr (''v0.0.0'', ''-0.'') else Inl err
      | Inr reachable \<Rightarrow>
          (case NewVersion reachable of
             None \<Rightarrow> Inr (reachable, ''-1.'')
           | Some ver \<Rightarrow>
               if Prerelease ver = [] then Inr (''v'' @ String (IncPatch ver), ''-0.'')
               else Inr (''v'' @ String ver, ''.0.'')))"

text \<open>The slice \<open>rev[:12]\<close> panics when \<open>rev\<close> has fewer than 12 bytes.\<close>

definition PseudoVersion :: "Describable \<Rightarrow> string \<Rightarrow> (error + string) outcome" where
  "PseudoVersion d revision =
     (case baseVersion d revision of
        Inl err \<Rightarrow> Returns (Inl err)
      | Inr (version, suffix) \<Rightarrow>
          (case TimeFromRevision d revision of
             Inl err \<Rightarrow> Returns (Inl err)
           | Inr t \<Rightarrow>
               (let timestamp = Format t
                in if length revision < 12 then Panics
                   else Returns (Inr (version @ suffix @ timestamp @ ''-'' @ take 12 revision)))))"

text \<open>
  The dates and clock readings whose fields have the usual ranges and whose year has at
  most four digits.
\<close>

definition civil :: "Time \<Rightarrow> bool" where
  "civil t = (0 \<le> year t \<and> year t \<le> 9999 \<and> 1 \<le> month t \<and> month t \<le> 12 \<and> 1 \<le> day t \<and> day t \<le> 31
     \<and> 0 \<le> hour t \<and> hour t \<le> 23 \<and> 0 \<le> minute t \<and> minute t \<le> 59 \<and> 0 \<le> second t \<and> second t \<le> 59)"

section \<open>The working tree\<close>

text \<open>
  \<open>vcs.Cmd\<close> of golang.org/x/tools/go/vcs, as far as the working tree uses it: the name
  of the command and the method that lists the tags of a checkout.
\<close>

record vcs_Cmd =
  Cmd :: string
  Tags :: "string \<Rightarrow> error + string list"

record anyWorkingTree =
  Dir :: string
  VCS :: vcs_Cmd

section \<open>Diff\<close>

text \<open>
  How a started command ends: it exits with a status, a signal ends it, or it could not
  be run at all.
\<close>

datatype process = Exit int | Killed int | NotRun string

text \<open>
  \<open>Cmd.Run\<close> of os/exec: \<open>nil\<close> exactly when the command ran and exited with status
  0; an \<open>*exec.ExitError\<close> when it ran and ended otherwise; another error when it did
  not run.
\<close>

fun Run :: "process \<Rightarrow> error option" where
  "Run (Exit n) = (if n = 0 then None else Some (ExitError (Some (WExited n))))"
| "Run (Killed sig) = Some (ExitError (Some (WSignaled sig)))"
| "Run (NotRun msg) = Some (Error msg)"

text \<open>
  \<open>execCommand\<close> is a variable of the package and \<open>filepath.Join\<close> a library function;
  both are parameters here. Running a command with its standard output set to \<open>out\<close>
  appends what the command prints to \<open>out\<close>.
\<close>

type_synonym command = "string \<Rightarrow> string list \<Rightarrow> string \<times> process"

definition diffPath :: "(string \<Rightarrow> string \<Rightarrow> string) \<Rightarrow> anyWorkingTree \<Rightarrow> string \<Rightarrow> string" where
  "diffPath join wt path =
     (if path = [] then ''/dev/null''
      else if hd path \<noteq> CHR ''/'' then join (Dir wt) path
      else path)"

definition Diff ::
  "(string \<Rightarrow> string \<Rightarrow> string) \<Rightarrow> command \<Rightarrow> anyWorkingTree \<Rightarrow> string \<Rightarrow> string \<Rightarrow> string
     \<Rightarrow> string \<times> bool \<times> error option" where
  "Diff join execCommand wt out path localFile =
     (let path' = diffPath join wt path;
          (printed, ended) = execCommand ''diff'' [''-u'', path', localFile];
          out' = out @ printed;
          err = Run ended;
          changes = False
      in case err of
           Some (ExitError (Some waitStatus)) \<Rightarrow>
             if Exited waitStatus \<and> ExitStatus waitStatus = 1 then (out', True, None)
             else (out', changes, err)
         | _ \<Rightarrow> (out', changes, err))"

section \<open>Version tags\<close>











section \<open>Stripping import comments\<close>

definition newline :: char where
  "newline = CHR 0x0A"

definition doubleQuote :: char where
  "doubleQuote = CHR 0x22"

definition backQuote :: char where
  "backQuote = CHR 0x60"

text \<open>The classes \<^verbatim>\<open>\s\<close> (tab, newline, form feed, carriage return, space) and \<^verbatim>\<open>\w\<close>.\<close>

definition spaceChars :: "char list" where
  "spaceChars = [CHR 0x09, CHR 0x0A, CHR 0x0C, CHR 0x0D, CHR 0x20]"

definition wordChars :: "char list" where
  "wordChars = ''0123456789ABCDEFGHIJKLMNOPQRSTUVWXYZabcdefghijklmnopqrstuvwxyz_''"

text \<open>
  \<open>quotedRE\<close>: a non-empty text between double quotes, or a non-empty text between
  back quotes.
\<close>

definition quotedRE :: regex where
  "quotedRE =
     Alt (cat [Lit [doubleQuote], Plus (Cls True [doubleQuote]), Lit [doubleQuote]])
         (cat [Lit [backQuote], Plus (Cls True [backQuote]), Lit [backQuote]])"

text \<open>\<open>importRE\<close>: \<^verbatim>\<open>\s*import\s+\<close>, \<open>quotedRE\<close>, \<^verbatim>\<open>\s*\<close>.\<close>

definition importRE :: regex where
  "importRE =
     cat [Star (Cls False spaceChars), Lit ''import'', Plus (Cls False spaceChars), quotedRE,
          Star (Cls False spaceChars)]"

text \<open>
  \<open>importCommentRE\<close>: \<^verbatim>\<open>^(package\s+\w+)\s+(?://\<close> \<open>importRE\<close> \<^verbatim>\<open>$|/\*\<close> \<open>importRE\<close>
  \<^verbatim>\<open>\*/)(.*)\<close>. The dot matches every byte but the newline.
\<close>

definition importCommentRE :: regex where
  "importCommentRE =
     cat [Grp 1 (cat [Lit ''package'', Plus (Cls False spaceChars), Plus (Cls False wordChars)]),
          Plus (Cls False spaceChars),
          Alt (cat [Lit ''//'', importRE, EndText])
              (cat [Lit ''/*'', importRE, Lit ''*/'']),
          Grp 2 (Star (Cls True [newline]))]"

text \<open>
  \<open>removeImportComment\<close> returns \<open>nil\<close> (here \<open>None\<close>) when the line does not match,
  and otherwise the package statement followed by what comes after the comment.
\<close>

definition removeImportComment :: "string \<Rightarrow> string option" where
  "removeImportComment line =
     (case FindSubmatch importCommentRE line of
        None \<Rightarrow> None
      | Some matches \<Rightarrow> Some (submatch matches 1 @ submatch matches 2))"

text \<open>
  An open file as the buffered reader sees it: the bytes still to be read, and the error
  the underlying reader reports once they are used up (\<open>None\<close> for a plain end of file).
\<close>

record reader =
  pending :: string
  failure :: "error option"

text \<open>
  \<open>ReadBytes('\n')\<close>: the bytes up to and including the first newline; without a
  newline, all that is left, together with the error that ended the reading.
\<close>

definition ReadBytes :: "reader \<Rightarrow> string \<times> error option \<times> reader" where
  "ReadBytes b =
     (if newline \<in> set (pending b)
      then (takeWhile (\<lambda>c. c \<noteq> newline) (pending b) @ [newline], None,
            b\<lparr>pending := tl (dropWhile (\<lambda>c. c \<noteq> newline) (pending b))\<rparr>)
      else (pending b, Some (case failure b of None \<Rightarrow> EOF | Some e \<Rightarrow> e),
            b\<lparr>pending := []\<rparr>))"

text \<open>
  An \<open>io.Writer\<close>: the byte slices it has accepted so far, and how many more calls of
  \<open>Write\<close> it accepts before it fails (\<open>None\<close>: it never fails). A failing call writes
  nothing.
\<close>

record writer =
  written :: "string list"
  budget :: "nat option"

definition Write :: "writer \<Rightarrow> string \<Rightarrow> writer \<times> error option" where
  "Write w p =
     (case budget w of
        None \<Rightarrow> (w\<lparr>written := written w @ [p]\<rparr>, None)
      | Some 0 \<Rightarrow> (w, Some (Error ''write failed''))
      | Some (Suc k) \<Rightarrow> (w\<lparr>written := written w @ [p], budget := Some k\<rparr>, None))"

definition TrimRight :: "string \<Rightarrow> char list \<Rightarrow> string" where
  "TrimRight s cutset = rev (dropWhile (\<lambda>c. c \<in> set cutset) (rev s))"

definition HasSuffix :: "string \<Rightarrow> string \<Rightarrow> bool" where
  "HasSuffix s suffix =
     (length suffix \<le> length s \<and> drop (length s - length suffix) s = suffix)"

lemma tl_dropWhile_shorter:
  "c \<in> set s \<Longrightarrow> length (tl (dropWhile (\<lambda>x. x \<noteq> c) s)) < length s"
  by (induction s) auto

lemma ReadBytes_shorter:
  "ReadBytes b = (line, None, b') \<Longrightarrow> length (pending b') < length (pending b)"
  using tl_dropWhile_shorter [of newline "pending b"]
  by (auto simp: ReadBytes_def split: if_splits)

text \<open>
  The loop of \<open>StripImportComment\<close>, from the state at the top of an iteration that is
  entered: the reader, the flag \<open>changed\<close> and the writer. The result is the writer
  afterwards and what the function returns.
\<close>

function stripLoop :: "reader \<Rightarrow> bool \<Rightarrow> writer \<Rightarrow> writer \<times> (error + bool)" where
  "stripLoop b changed w =
     (case ReadBytes b of (line, err, b') \<Rightarrow>
        if err \<noteq> None \<and> err \<noteq> Some EOF
        then (w, Inl (Wrap (the err) ''StripImportComment''))
        else
          (let eof = (err = Some EOF) in
           if length line > 0 then
             (let nonl = TrimRight line [newline];
                  changed1 = (if length nonl = length line then True else changed);
                  repl = removeImportComment nonl;
                  nonl' = (case repl of None \<Rightarrow> nonl | Some r \<Rightarrow> r);
                  changed2 = (case repl of None \<Rightarrow> changed1 | Some r \<Rightarrow> True)
              in case Write w (nonl' @ [newline]) of
                   (w', Some werr) \<Rightarrow> (w', Inl (Wrap werr ''StripImportComment''))
                 | (w', None) \<Rightarrow> if eof then (w', Inr changed2) else stripLoop b' changed2 w')
           else if eof then (w, Inr changed) else stripLoop b' changed w))"
  by pat_completeness auto
termination
proof (relation "measure (\<lambda>(b, changed, w). length (pending b))")
  show "wf (measure (\<lambda>(b, changed, w). length (pending b)))" by simp
next
  fix b :: reader and changed :: bool and w :: writer
    and x line y err b' eof nonl changed1 repl nonl' changed2 xa w' ya
  assume "(line, y) = ReadBytes b" "(err, b') = y" "\<not> (err \<noteq> None \<and> err \<noteq> Some EOF)"
    "eof = (err = Some EOF)" "\<not> eof"
  then have "ReadBytes b = (line, None, b')" by (cases err) auto
  then show "((b', changed2, w'), b, changed, w) \<in> measure (\<lambda>(b, changed, w). length (pending b))"
    using ReadBytes_shorter by simp
next
  fix b :: reader and changed :: bool and w :: writer
    and x line y err b' eof
  assume "(line, y) = ReadBytes b" "(err, b') = y" "\<not> (err \<noteq> None \<and> err \<noteq> Some EOF)"
    "eof = (err = Some EOF)" "\<not> eof"
  then have "ReadBytes b = (line, None, b')" by (cases err) auto
  then show "((b', changed, w), b, changed, w) \<in> measure (\<lambda>(b, changed, w). length (pending b))"
    using ReadBytes_shorter by simp
qed

declare stripLoop.simps [simp del]

text \<open>
  \<open>StripImportComment\<close>. Opening the file at \<open>filepath.Join(wt.Dir, path)\<close> is a
  parameter: \<open>os_Open\<close> gives the reader or the error for a directory and a path in it.
\<close>

definition StripImportComment ::
  "(string \<Rightarrow> string \<Rightarrow> error + reader) \<Rightarrow> anyWorkingTree \<Rightarrow> string \<Rightarrow> writer
     \<Rightarrow> writer \<times> (error + bool)" where
  "StripImportComment os_Open wt path w =
     (if \<not> HasSuffix path ''.go'' then (w, Inr False)
      else
        (case os_Open (Dir wt) path of
           Inl err \<Rightarrow> (w, Inl (Wrap err ''StripImportComment''))
         | Inr r \<Rightarrow> stripLoop r False w))"

section \<open>Lines of a file\<close>

text \<open>
  The lines of a text, without their newlines; a last line that no newline ends counts.
  \<open>unterminated\<close> says that the text ends in such a line, \<open>terminated\<close> that a
  byte slice ends in a newline, and \<open>rewriteLine\<close> is the line a line is replaced by.
\<close>

function linesOf :: "string \<Rightarrow> string list" where
  "linesOf s =
     (if s = [] then []
      else if newline \<in> set s
        then takeWhile (\<lambda>c. c \<noteq> newline) s # linesOf (tl (dropWhile (\<lambda>c. c \<noteq> newline) s))
        else [s])"
  by pat_completeness auto
termination
proof (relation "measure length")
  fix s :: string
  assume "s \<noteq> []" "newline \<in> set s"
  then show "(tl (dropWhile (\<lambda>c. c \<noteq> newline) s), s) \<in> measure length"
    using tl_dropWhile_shorter [of newline s] by simp
qed simp

declare linesOf.simps [simp del]

definition rewriteLine :: "string \<Rightarrow> string" where
  "rewriteLine l = (case removeImportComment l of None \<Rightarrow> l | Some r \<Rightarrow> r)"

definition unterminated :: "string \<Rightarrow> bool" where
  "unterminated s = (s \<noteq> [] \<and> last s \<noteq> newline)"

definition terminated :: "string \<Rightarrow> bool" where
  "terminated p = (p \<noteq> [] \<and> last p = newline)"

section \<open>Example inputs\<close>

definition tag_v123 :: Version where
  "tag_v123 = \<lparr>major = 1, minor = 2, patch = 3, pre = [], metadata = [], original = ''v1.2.3''\<rparr>"

definition commitTime :: Time where
  "commitTime = \<lparr>year = 2019, month = 1, day = 2, hour = 3, minute = 4, second = 5\<rparr>"

definition tagged :: "string \<Rightarrow> Describable" where
  "tagged tag = \<lparr>ReachableTag = (\<lambda>_. Inr tag), TimeFromRevision = (\<lambda>_. Inr commitTime)\<rparr>"

definition tag_v123beta :: Version where
  "tag_v123beta = \<lparr>major = 1, minor = 2, patch = 3, pre = ''beta'', metadata = [],
     original = ''v1.2.3-beta''\<rparr>"

definition untagged :: Describable where
  "untagged = \<lparr>ReachableTag = (\<lambda>_. Inl ErrorVersionNotFound),
                TimeFromRevision = (\<lambda>_. Inr commitTime)\<rparr>"

definition slashJoin :: "string \<Rightarrow> string \<Rightarrow> string" where
  "slashJoin dir path = dir @ ''/'' @ path"

definition diffTool :: "string \<Rightarrow> int \<Rightarrow> command" where
  "diffTool printed n = (\<lambda>name args. (printed, Exit n))"

definition checkout :: anyWorkingTree where
  "checkout = \<lparr>Dir = ''/tmp/retrodep.1'', VCS = \<lparr>Cmd = ''git'', Tags = (\<lambda>dir. Inr [])\<rparr>\<rparr>"



definition fileWith :: "string \<Rightarrow> string \<Rightarrow> string \<Rightarrow> error + reader" where
  "fileWith txt dir path = Inr \<lparr>pending = txt, failure = None\<rparr>"

definition sink :: writer where
  "sink = \<lparr>written = [], budget = None\<rparr>"




section \<open>Properties of pseudo-versions\<close>

lemma digitChar_digit: "n < 10 \<Longrightarrow> digitChar n \<in> set digits"
  unfolding digitChar_def digits_def by (rule nth_mem) simp

lemma decimal_digits: "0 \<le> n \<Longrightarrow> set (decimal n) \<subseteq> set digits"
proof (induction n rule: decimal.induct)
  case (1 n)
  show ?case
  proof (cases "n < 10")
    case True
    with 1(2) show ?thesis by (subst decimal.simps) (simp add: digitChar_digit)
  next
    case False
    then have "set (decimal (n div 10)) \<subseteq> set digits" using 1 by simp
    moreover have "digitChar (nat (n mod 10)) \<in> set digits"
      by (rule digitChar_digit) simp
    ultimately show ?thesis using False by (subst decimal.simps) simp
  qed
qed

lemma decimal_length1: "n < 10 \<Longrightarrow> length (decimal n) = 1"
  by (subst decimal.simps) simp

lemma decimal_length2: "10 \<le> n \<Longrightarrow> n < 100 \<Longrightarrow> length (decimal n) = 2"
  by (subst decimal.simps) (simp add: decimal_length1)

lemma decimal_length3: "100 \<le> n \<Longrightarrow> n < 1000 \<Longrightarrow> length (decimal n) = 3"
  by (subst decimal.simps) (simp add: decimal_length2)

lemma decimal_length4: "1000 \<le> n \<Longrightarrow> n < 10000 \<Longrightarrow> length (decimal n) = 4"
  by (subst decimal.simps) (simp add: decimal_length3)

lemma appendInt2: "0 \<le> x \<Longrightarrow> x < 100 \<Longrightarrow> length (appendInt x 2) = 2 \<and> set (appendInt x 2) \<subseteq> set digits"
  using decimal_length1[of x] decimal_length2[of x] decimal_digits[of x]
  by (cases "x < 10") (auto simp: appendInt_def Let_def digits_def)

lemma appendInt4: "0 \<le> x \<Longrightarrow> x < 10000 \<Longrightarrow> length (appendInt x 4) = 4 \<and> set (appendInt x 4) \<subseteq> set digits"
  using decimal_length1[of x] decimal_length2[of x] decimal_length3[of x] decimal_length4[of x] decimal_digits[of x]
  by (cases "x < 10"; cases "x < 100"; cases "x < 1000") (auto simp: appendInt_def Let_def digits_def)

lemma Format_civil: "civil t \<Longrightarrow> length (Format t) = 14 \<and> set (Format t) \<subseteq> set digits"
  using appendInt4[of "year t"] appendInt2[of "month t"] appendInt2[of "day t"]
    appendInt2[of "hour t"] appendInt2[of "minute t"] appendInt2[of "second t"]
  by (simp add: Format_def civil_def)

lemma baseVersion_release:
  "ReachableTag d revision = Inr tag \<Longrightarrow> NewVersion tag = Some ver \<Longrightarrow> Prerelease ver = []
   \<Longrightarrow> baseVersion d revision = Inr (''v'' @ String (IncPatch ver), ''-0.'')"
  by (simp add: baseVersion_def)

lemma String_IncPatch:
  "pre ver = [] \<Longrightarrow> String (IncPatch ver) =
     fmt_d (major ver) @ ''.'' @ fmt_d (minor ver) @ ''.'' @ fmt_d (wrap64 (patch ver + 1))"
  by (simp add: String_def IncPatch_def Let_def)

lemma wrap64_id: "minInt64 \<le> x \<Longrightarrow> x \<le> maxInt64 \<Longrightarrow> wrap64 x = x"
  by (simp add: wrap64_def minInt64_def maxInt64_def)

lemmas NewVersion_eval = NewVersion_def FindSubmatch_def versionRegex_def dotted_def digits_def identChars_def
  submatch_def ParseInt_def TrimPrefix_def decimalValue_def digitVal_def maxInt64_def

lemma NewVersion_v123: "NewVersion ''v1.2.3'' = Some tag_v123"
  by (simp add: NewVersion_eval tag_v123_def)

text \<open>
  Claim C1. When the reachable tag of a revision parses as a semantic version without a
  prerelease component, \<open>PseudoVersion\<close> returns, without an error, the letter
  \<open>v\<close>, the parsed version with its patch number incremented (major, minor and the
  incremented patch; the increment is that of a signed 64-bit integer and drops build
  metadata), the suffix \<open>-0.\<close>, the commit timestamp, a hyphen and the first 12 bytes of
  the revision. The timestamp of a commit time with a year of at most four digits is 14
  decimal digits. The claim speaks of the commit timestamp and of the first 12 bytes of
  the revision, so the commit-time query succeeds and the revision has at least 12 bytes.
\<close>

theorem PseudoVersion_release:
  assumes "ReachableTag d revision = Inr tag"
    and "NewVersion tag = Some ver"
    and "Prerelease ver = []"
    and "TimeFromRevision d revision = Inr t"
    and "12 \<le> length revision"
  shows "PseudoVersion d revision =
           Returns (Inr (''v'' @ String (IncPatch ver) @ ''-0.'' @ Format t @ ''-'' @ take 12 revision))
         \<and> String (IncPatch ver) =
             fmt_d (major ver) @ ''.'' @ fmt_d (minor ver) @ ''.'' @ fmt_d (wrap64 (patch ver + 1))
         \<and> (civil t \<longrightarrow> length (Format t) = 14 \<and> set (Format t) \<subseteq> set digits)"
proof -
  have "baseVersion d revision = Inr (''v'' @ String (IncPatch ver), ''-0.'')"
    using assms(1-3) by (rule baseVersion_release)
  then have "PseudoVersion d revision =
      Returns (Inr (''v'' @ String (IncPatch ver) @ ''-0.'' @ Format t @ ''-'' @ take 12 revision))"
    using assms(4,5) by (simp add: PseudoVersion_def)
  moreover have "String (IncPatch ver) =
      fmt_d (major ver) @ ''.'' @ fmt_d (minor ver) @ ''.'' @ fmt_d (wrap64 (patch ver + 1))"
    using assms(3) by (simp add: String_IncPatch Prerelease_def)
  ultimately show ?thesis using Format_civil by blast
qed

lemma Format_commitTime: "Format commitTime = ''20190102030405''"
  by (simp add: Format_def commitTime_def appendInt_def decimal.simps digitChar_def)

lemma String_v124: "String (IncPatch tag_v123) = ''1.2.4''"
  by (simp add: String_def IncPatch_def tag_v123_def wrap64_def fmt_d_def decimal.simps digitChar_def Let_def)

theorem PseudoVersion_release_witness:
  "civil commitTime
   \<and> PseudoVersion (tagged ''v1.2.3'') ''abcdef0123456789abcdef0123456789abcdef01''
     = Returns (Inr ''v1.2.4-0.20190102030405-abcdef012345'')"
  using PseudoVersion_release [of "tagged ''v1.2.3''" "''abcdef0123456789abcdef0123456789abcdef01''"
      "''v1.2.3''" tag_v123 commitTime]
  by (simp add: tagged_def NewVersion_v123 Prerelease_def Format_commitTime String_v124)
     (simp add: tag_v123_def civil_def commitTime_def)

lemma baseVersion_prerelease:
  "ReachableTag d revision = Inr tag \<Longrightarrow> NewVersion tag = Some ver \<Longrightarrow> Prerelease ver \<noteq> []
   \<Longrightarrow> baseVersion d revision = Inr (''v'' @ String ver, ''.0.'')"
  by (simp add: baseVersion_def)

lemma PseudoVersion_compose:
  "baseVersion d revision = Inr (version, suffix) \<Longrightarrow> TimeFromRevision d revision = Inr t
   \<Longrightarrow> 12 \<le> length revision
   \<Longrightarrow> PseudoVersion d revision = Returns (Inr (version @ suffix @ Format t @ ''-'' @ take 12 revision))"
  by (simp add: PseudoVersion_def)

text \<open>
  Claim C2. When the reachable tag parses as a semantic version with a prerelease
  component, \<open>PseudoVersion\<close> returns the letter \<open>v\<close>, the parsed version as it is
  (same patch number, prerelease and build metadata kept), the suffix \<open>.0.\<close>, the
  commit timestamp, a hyphen and the first 12 bytes of the revision.
\<close>

theorem PseudoVersion_prerelease:
  assumes "ReachableTag d revision = Inr tag"
    and "NewVersion tag = Some ver"
    and "Prerelease ver \<noteq> []"
    and "TimeFromRevision d revision = Inr t"
    and "12 \<le> length revision"
  shows "PseudoVersion d revision =
           Returns (Inr (''v'' @ String ver @ ''.0.'' @ Format t @ ''-'' @ take 12 revision))
         \<and> String ver =
             fmt_d (major ver) @ ''.'' @ fmt_d (minor ver) @ ''.'' @ fmt_d (patch ver) @ ''-'' @ pre ver
               @ (if metadata ver \<noteq> [] then ''+'' @ metadata ver else [])"
proof -
  have "baseVersion d revision = Inr (''v'' @ String ver, ''.0.'')"
    using assms(1-3) by (rule baseVersion_prerelease)
  then have "PseudoVersion d revision =
      Returns (Inr ((''v'' @ String ver) @ ''.0.'' @ Format t @ ''-'' @ take 12 revision))"
    using assms(4,5) by (rule PseudoVersion_compose)
  moreover have "pre ver \<noteq> []" using assms(3) by (simp add: Prerelease_def)
  ultimately show ?thesis by (simp add: String_def)
qed

lemma NewVersion_v123beta: "NewVersion ''v1.2.3-beta'' = Some tag_v123beta"
  by (simp add: NewVersion_eval tag_v123beta_def)

lemma String_v123beta: "String tag_v123beta = ''1.2.3-beta''"
  by (simp add: String_def tag_v123beta_def fmt_d_def decimal.simps digitChar_def)

theorem PseudoVersion_prerelease_witness:
  "PseudoVersion (tagged ''v1.2.3-beta'') ''abcdef0123456789abcdef0123456789abcdef01''
     = Returns (Inr ''v1.2.3-beta.0.20190102030405-abcdef012345'')"
  using PseudoVersion_prerelease [of "tagged ''v1.2.3-beta''" "''abcdef0123456789abcdef0123456789abcdef01''"
      "''v1.2.3-beta''" tag_v123beta commitTime]
  by (simp add: tagged_def NewVersion_v123beta Prerelease_def Format_commitTime String_v123beta)
     (simp add: tag_v123beta_def)

text \<open>
  Claim C3. When \<open>ReachableTag\<close> reports \<open>ErrorVersionNotFound\<close>, \<open>PseudoVersion\<close>
  goes on as in a normal branch: the base version is \<open>v0.0.0\<close>, the suffix is \<open>-0.\<close>,
  and the result is returned without an error.
\<close>

theorem PseudoVersion_no_tag:
  assumes "ReachableTag d revision = Inl ErrorVersionNotFound"
    and "TimeFromRevision d revision = Inr t"
    and "12 \<le> length revision"
  shows "baseVersion d revision = Inr (''v0.0.0'', ''-0.'')
         \<and> PseudoVersion d revision =
           Returns (Inr (''v0.0.0'' @ ''-0.'' @ Format t @ ''-'' @ take 12 revision))"
proof -
  have "baseVersion d revision = Inr (''v0.0.0'', ''-0.'')"
    using assms(1) by (simp add: baseVersion_def)
  then show ?thesis using PseudoVersion_compose [OF _ assms(2,3)] by simp
qed

theorem PseudoVersion_no_tag_witness:
  "PseudoVersion untagged ''abcdef0123456789abcdef0123456789abcdef01''
     = Returns (Inr ''v0.0.0-0.20190102030405-abcdef012345'')"
  using PseudoVersion_no_tag [of untagged "''abcdef0123456789abcdef0123456789abcdef01''" commitTime]
  by (simp add: untagged_def Format_commitTime)

text \<open>
  Claim C4. When the reachable tag does not parse as a semantic version, the base
  version is the tag's own text and the suffix is \<open>-1.\<close>; the result is the tag, the
  suffix, the commit timestamp, a hyphen and the first 12 bytes of the revision.
\<close>

theorem PseudoVersion_unparsed_tag:
  assumes "ReachableTag d revision = Inr tag"
    and "NewVersion tag = None"
    and "TimeFromRevision d revision = Inr t"
    and "12 \<le> length revision"
  shows "baseVersion d revision = Inr (tag, ''-1.'')
         \<and> PseudoVersion d revision =
           Returns (Inr (tag @ ''-1.'' @ Format t @ ''-'' @ take 12 revision))"
proof -
  have "baseVersion d revision = Inr (tag, ''-1.'')"
    using assms(1,2) by (simp add: baseVersion_def)
  then show ?thesis using PseudoVersion_compose [OF _ assms(3,4)] by simp
qed

lemma NewVersion_legacy: "NewVersion ''legacy-tag-1'' = None"
  by (simp add: NewVersion_eval)

theorem PseudoVersion_unparsed_tag_witness:
  "baseVersion (tagged ''legacy-tag-1'') ''abcdef0123456789abcdef0123456789abcdef01''
     = Inr (''legacy-tag-1'', ''-1.'')
   \<and> PseudoVersion (tagged ''legacy-tag-1'') ''abcdef0123456789abcdef0123456789abcdef01''
     = Returns (Inr ''legacy-tag-1-1.20190102030405-abcdef012345'')"
  using PseudoVersion_unparsed_tag [of "tagged ''legacy-tag-1''" "''abcdef0123456789abcdef0123456789abcdef01''"
      "''legacy-tag-1''" commitTime]
  by (simp add: tagged_def NewVersion_legacy Format_commitTime)

text \<open>
  Claim C9. \<open>PseudoVersion\<close> slices the revision to its first 12 bytes on every path
  on which the reachable-tag query succeeds or reports \<open>ErrorVersionNotFound\<close> and the
  commit-time query succeeds. It panics exactly when it gets there with a revision of
  fewer than 12 bytes; with a revision of at least 12 bytes it always returns.
\<close>

theorem PseudoVersion_panics_iff:
  "(PseudoVersion d revision = Panics) =
     ((ReachableTag d revision = Inl ErrorVersionNotFound \<or> (\<exists>tag. ReachableTag d revision = Inr tag))
      \<and> (\<exists>t. TimeFromRevision d revision = Inr t) \<and> length revision < 12)
   \<and> (12 \<le> length revision \<longrightarrow> (\<exists>r. PseudoVersion d revision = Returns r))"
  by (auto simp: PseudoVersion_def baseVersion_def Let_def split: sum.splits option.splits prod.splits)

theorem PseudoVersion_panics_iff_witness:
  "PseudoVersion (tagged ''v1.2.3'') ''abcdef'' = Panics
   \<and> PseudoVersion untagged ''abcdef01234'' = Panics
   \<and> (\<exists>r. PseudoVersion untagged ''abcdef012345'' = Returns r)"
  using PseudoVersion_panics_iff [of "tagged ''v1.2.3''" "''abcdef''"]
    PseudoVersion_panics_iff [of untagged "''abcdef01234''"]
    PseudoVersion_panics_iff [of untagged "''abcdef012345''"]
  by (simp add: tagged_def untagged_def)

section \<open>The base version does not depend on the tag's spelling\<close>

lemma digits_reject_v:
  "ms (Seq (Grp 1 (Plus (Cls False digits))) r) (CHR ''v'' # s, c) = []"
  by (simp add: digits_def)

lemma opt_v_present:
  "ms (Seq (Opt (Lit ''v'')) (Seq (Grp 1 (Plus (Cls False digits))) r)) (CHR ''v'' # s, c)
     = ms (Seq (Grp 1 (Plus (Cls False digits))) r) (s, c)"
  using digits_reject_v [of r s c] by simp

lemma opt_v_absent:
  "ms (Seq (Grp 1 (Plus (Cls False digits))) r) (s, c) \<noteq> []
   \<Longrightarrow> ms (Seq (Opt (Lit ''v'')) (Seq (Grp 1 (Plus (Cls False digits))) r)) (s, c)
     = ms (Seq (Grp 1 (Plus (Cls False digits))) r) (s, c)"
proof (cases s)
  case Nil
  then show ?thesis by simp
next
  case (Cons x xs)
  assume ne: "ms (Seq (Grp 1 (Plus (Cls False digits))) r) (s, c) \<noteq> []"
  have "x \<noteq> CHR ''v''"
  proof
    assume "x = CHR ''v''"
    then show False using ne Cons digits_reject_v [of r xs c] by simp
  qed
  then show ?thesis using Cons by simp
qed

lemma FindSubmatch_v:
  "FindSubmatch versionRegex (''v'' @ s) = Some m \<Longrightarrow> FindSubmatch versionRegex s = Some m"
proof -
  assume a: "FindSubmatch versionRegex (''v'' @ s) = Some m"
  obtain r where r: "versionRegex = Seq (Opt (Lit ''v'')) (Seq (Grp 1 (Plus (Cls False digits))) r)"
    by (simp add: versionRegex_def)
  have 1: "ms versionRegex (''v'' @ s, Map.empty) = ms (Seq (Grp 1 (Plus (Cls False digits))) r) (s, Map.empty)"
    unfolding r using opt_v_present [of r s Map.empty] by simp
  have "ms versionRegex (''v'' @ s, Map.empty) \<noteq> []"
    using a by (auto simp: FindSubmatch_def)
  then have "ms (Seq (Grp 1 (Plus (Cls False digits))) r) (s, Map.empty) \<noteq> []"
    unfolding 1 .
  then have "ms versionRegex (s, Map.empty) = ms (Seq (Grp 1 (Plus (Cls False digits))) r) (s, Map.empty)"
    unfolding r by (rule opt_v_absent)
  then have "ms versionRegex (s, Map.empty) = ms versionRegex (''v'' @ s, Map.empty)"
    unfolding 1 .
  then show ?thesis using a unfolding FindSubmatch_def by simp
qed

lemma NewVersion_v:
  "NewVersion (''v'' @ s) = Some ver \<Longrightarrow> NewVersion s = Some (ver\<lparr>original := s\<rparr>)"
proof -
  assume a: "NewVersion (''v'' @ s) = Some ver"
  then obtain m where m: "FindSubmatch versionRegex (''v'' @ s) = Some m"
    by (auto simp: NewVersion_def split: option.splits)
  then have m': "FindSubmatch versionRegex s = Some m" by (rule FindSubmatch_v)
  show ?thesis using a unfolding NewVersion_def m m'
    by (auto split: option.splits if_splits)
qed

lemma String_original: "String (v\<lparr>original := s\<rparr>) = String v"
  by (simp add: String_def)

lemma String_IncPatch_original: "String (IncPatch (v\<lparr>original := s\<rparr>)) = String (IncPatch v)"
  by (simp add: String_def IncPatch_def Let_def)

lemma String_same_fields:
  "v2\<lparr>original := []\<rparr> = v1\<lparr>original := []\<rparr> \<Longrightarrow> String v2 = String v1"
  using String_original [where v = v2 and s = "[]"] String_original [where v = v1 and s = "[]"] by simp

lemma String_IncPatch_same_fields:
  "v2\<lparr>original := []\<rparr> = v1\<lparr>original := []\<rparr> \<Longrightarrow> String (IncPatch v2) = String (IncPatch v1)"
  using String_IncPatch_original [where v = v2 and s = "[]"] String_IncPatch_original [where v = v1 and s = "[]"] by simp

lemma Prerelease_same_fields:
  "v2\<lparr>original := []\<rparr> = v1\<lparr>original := []\<rparr> \<Longrightarrow> Prerelease v2 = Prerelease v1"
  by (drule arg_cong [where f = pre]) (simp add: Prerelease_def)

text \<open>
  Claim C10. For a reachable tag that parses, the base of the pseudo-version is the
  letter \<open>v\<close> followed by \<open>String\<close> of the parsed version (after \<open>IncPatch\<close> when
  there is no prerelease component). \<open>String\<close> prints the parsed fields only, so two
  tags that parse to the same fields give the same base and suffix, whatever their
  spelling; and a tag that parses with a leading \<open>v\<close> parses to the same fields without
  it.
\<close>

theorem baseVersion_spelling:
  assumes "ReachableTag d1 r1 = Inr tag1" and "NewVersion tag1 = Some v1"
    and "ReachableTag d2 r2 = Inr tag2" and "NewVersion tag2 = Some v2"
    and "v2\<lparr>original := []\<rparr> = v1\<lparr>original := []\<rparr>"
  shows "baseVersion d1 r1 =
           Inr (''v'' @ String (if Prerelease v1 = [] then IncPatch v1 else v1),
                if Prerelease v1 = [] then ''-0.'' else ''.0.'')
         \<and> baseVersion d2 r2 = baseVersion d1 r1
         \<and> (\<forall>s. tag1 = ''v'' @ s \<longrightarrow> NewVersion s = Some (v1\<lparr>original := s\<rparr>))"
proof -
  have 1: "baseVersion d1 r1 =
           Inr (''v'' @ String (if Prerelease v1 = [] then IncPatch v1 else v1),
                if Prerelease v1 = [] then ''-0.'' else ''.0.'')"
    using assms(1,2) by (simp add: baseVersion_def)
  have 2: "baseVersion d2 r2 =
           Inr (''v'' @ String (if Prerelease v2 = [] then IncPatch v2 else v2),
                if Prerelease v2 = [] then ''-0.'' else ''.0.'')"
    using assms(3,4) by (simp add: baseVersion_def)
  have 3: "baseVersion d2 r2 = baseVersion d1 r1"
    unfolding 1 2
    using String_same_fields [OF assms(5)] String_IncPatch_same_fields [OF assms(5)]
      Prerelease_same_fields [OF assms(5)]
    by simp
  have 4: "\<forall>s. tag1 = ''v'' @ s \<longrightarrow> NewVersion s = Some (v1\<lparr>original := s\<rparr>)"
    using assms(2) NewVersion_v by blast
  show ?thesis using 1 3 4 by blast
qed


theorem baseVersion_spelling_witness:
  "baseVersion (tagged ''v1.2.3'') ''abcdef0123456789abcdef0123456789abcdef01'' = Inr (''v1.2.4'', ''-0.'')
   \<and> baseVersion (tagged ''1.2.3'') ''abcdef0123456789abcdef0123456789abcdef01'' = Inr (''v1.2.4'', ''-0.'')
   \<and> NewVersion ''1.2.3'' = Some (tag_v123\<lparr>original := ''1.2.3''\<rparr>)"
proof -
  have p: "NewVersion ''1.2.3'' = Some (tag_v123\<lparr>original := ''1.2.3''\<rparr>)"
    by (simp add: NewVersion_eval tag_v123_def)
  show ?thesis
    using baseVersion_spelling [of "tagged ''v1.2.3''" "''abcdef0123456789abcdef0123456789abcdef01''"
      "''v1.2.3''" tag_v123 "tagged ''1.2.3''" "''abcdef0123456789abcdef0123456789abcdef01''"
      "''1.2.3''" "tag_v123\<lparr>original := ''1.2.3''\<rparr>"] p
    by (simp add: tagged_def NewVersion_v123 String_v124 Prerelease_def)
       (simp add: tag_v123_def)
qed

section \<open>Properties of Diff\<close>

text \<open>
  Claim C8. Whatever the diff tool printed is appended to the caller's sink, however the
  tool ended. An exit status of 0 gives \<open>false\<close> and no error, an exit status of 1 gives
  \<open>true\<close> and no error, and every other exit status gives \<open>false\<close> with the
  \<open>*exec.ExitError\<close> of the run; so does a tool that a signal ended, and a tool that
  could not be run gives \<open>false\<close> with that error.
\<close>

theorem Diff_exit_status:
  assumes "execCommand ''diff'' [''-u'', diffPath join wt path, localFile] = (printed, ended)"
  shows "Diff join execCommand wt out path localFile =
           (out @ printed,
            case ended of
              Exit n \<Rightarrow>
                if n = 0 then (False, None)
                else if n = 1 then (True, None)
                else (False, Some (ExitError (Some (WExited n))))
            | Killed sig \<Rightarrow> (False, Some (ExitError (Some (WSignaled sig))))
            | NotRun msg \<Rightarrow> (False, Some (Error msg)))"
  using assms by (cases ended) (simp_all add: Diff_def Let_def)

theorem Diff_exit_status_witness:
  "Diff slashJoin (diffTool [] 0) checkout ''log: '' ''a.go'' ''/src/a.go'' = (''log: '', False, None)
   \<and> Diff slashJoin (diffTool ''-a+b'' 1) checkout ''log: '' ''a.go'' ''/src/a.go''
       = (''log: -a+b'', True, None)
   \<and> Diff slashJoin (diffTool ''diff: trouble'' 2) checkout ''log: '' ''a.go'' ''/src/a.go''
       = (''log: diff: trouble'', False, Some (ExitError (Some (WExited 2))))"
  using Diff_exit_status [of "diffTool [] 0" slashJoin checkout "''a.go''" "''/src/a.go''" "[]" "Exit 0" "''log: ''"]
    Diff_exit_status [of "diffTool ''-a+b'' 1" slashJoin checkout "''a.go''" "''/src/a.go''" "''-a+b''" "Exit 1" "''log: ''"]
    Diff_exit_status [of "diffTool ''diff: trouble'' 2" slashJoin checkout "''a.go''" "''/src/a.go''"
      "''diff: trouble''" "Exit 2" "''log: ''"]
  by (simp add: diffTool_def)

section \<open>Matching by scanning\<close>

text \<open>
  Where a pattern leaves the matcher no choice, matching it is a scan from left to
  right. \<open>bindK r K\<close> matches \<open>r\<close> and hands every way of doing so to \<open>K\<close>, which
  stands for the rest of the pattern; a repeated class followed by a \<open>K\<close> that rejects
  the bytes of the class can only take the longest run.
\<close>

definition bindK :: "regex \<Rightarrow> (mstate \<Rightarrow> mstate list) \<Rightarrow> mstate \<Rightarrow> mstate list" where
  "bindK r K st = concat (map K (ms r st))"

definition inClass :: "bool \<Rightarrow> char list \<Rightarrow> char \<Rightarrow> bool" where
  "inClass neg cs x = ((x \<in> set cs) \<noteq> neg)"

definition rejects :: "(char \<Rightarrow> bool) \<Rightarrow> (mstate \<Rightarrow> mstate list) \<Rightarrow> bool" where
  "rejects P K = (\<forall>x xs c. P x \<longrightarrow> K (x # xs, c) = [])"

definition lit :: "string \<Rightarrow> string \<Rightarrow> string option" where
  "lit w s = (if take (length w) s = w then Some (drop (length w) s) else None)"

definition many1 :: "(char \<Rightarrow> bool) \<Rightarrow> string \<Rightarrow> string option" where
  "many1 P s = (case s of [] \<Rightarrow> None | x # xs \<Rightarrow> if P x then Some (dropWhile P xs) else None)"

lemma ms_bindK: "ms r st = bindK r (\<lambda>st'. [st']) st"
  by (simp add: bindK_def)

lemma concat_map_concat:
  "concat (map K (concat xss)) = concat (map (\<lambda>xs. concat (map K xs)) xss)"
  by (induction xss) auto

lemma bindK_Seq: "bindK (Seq a b) K = bindK a (bindK b K)"
proof
  fix st
  have "bindK (Seq a b) K st = concat (map K (concat (map (ms b) (ms a st))))"
    by (simp add: bindK_def)
  also have "\<dots> = concat (map (\<lambda>xs. concat (map K xs)) (map (ms b) (ms a st)))"
    by (rule concat_map_concat)
  also have "\<dots> = bindK a (bindK b K) st"
  proof -
    have "bindK b K = (\<lambda>st'. concat (map K (ms b st')))"
      by (rule ext) (simp add: bindK_def)
    then show ?thesis by (simp add: bindK_def comp_def)
  qed
  finally show "bindK (Seq a b) K st = bindK a (bindK b K) st" .
qed

lemma bindK_Alt: "bindK (Alt a b) K st = bindK a K st @ bindK b K st"
  by (simp add: bindK_def)

lemma bindK_Lit: "bindK (Lit w) K (s, c) = (case lit w s of None \<Rightarrow> [] | Some s' \<Rightarrow> K (s', c))"
  by (simp add: bindK_def lit_def)

lemma bindK_EndText: "bindK EndText K (s, c) = (if s = [] then K ([], c) else [])"
  by (simp add: bindK_def)

lemma bindK_Grp:
  "bindK (Grp k r) K (s, c) =
     bindK r (\<lambda>st'. K (fst st', (snd st')(k \<mapsto> take (length s - length (fst st')) s))) (s, c)"
  by (simp add: bindK_def comp_def)

lemma iter_run:
  assumes step: "\<And>x xs c. f (x # xs, c) = (if P x then [(xs, c)] else [])"
    and stop: "\<And>c. f ([], c) = []"
    and rej: "rejects P K"
  shows "length s \<le> n \<Longrightarrow> concat (map K (iter f n (s, c))) = K (dropWhile P s, c)"
proof (induction n arbitrary: s)
  case 0
  then show ?case by simp
next
  case (Suc n)
  show ?case
  proof (cases s)
    case Nil
    then show ?thesis by (simp add: stop)
  next
    case (Cons x xs)
    show ?thesis
    proof (cases "P x")
      case True
      have "K (x # xs, c) = []" using rej True by (simp add: rejects_def)
      moreover have "concat (map K (iter f n (xs, c))) = K (dropWhile P xs, c)"
        using Suc.IH [of xs] Suc.prems Cons by simp
      ultimately show ?thesis using True Cons by (simp add: step)
    next
      case False
      then show ?thesis using Cons by (simp add: step)
    qed
  qed
qed

lemma iter_head:
  assumes step: "\<And>x xs c. f (x # xs, c) = (if P x then [(xs, c)] else [])"
    and stop: "\<And>c. f ([], c) = []"
  shows "length s \<le> n \<Longrightarrow> \<exists>rest. iter f n (s, c) = (dropWhile P s, c) # rest"
proof (induction n arbitrary: s)
  case 0
  then show ?case by simp
next
  case (Suc n)
  show ?case
  proof (cases s)
    case Nil
    then show ?thesis by (simp add: stop)
  next
    case (Cons x xs)
    show ?thesis
    proof (cases "P x")
      case True
      obtain rest where "iter f n (xs, c) = (dropWhile P xs, c) # rest"
        using Suc.IH [of xs] Suc.prems Cons by auto
      then show ?thesis using True Cons by (simp add: step)
    next
      case False
      then show ?thesis using Cons by (simp add: step)
    qed
  qed
qed

lemma ms_Cls_Cons: "ms (Cls neg cs) (x # xs, c) = (if inClass neg cs x then [(xs, c)] else [])"
  by (simp add: inClass_def)

lemma ms_Cls_Nil: "ms (Cls neg cs) ([], c) = []"
  by simp

lemma bindK_Star_cls:
  assumes "rejects (inClass neg cs) K"
  shows "bindK (Star (Cls neg cs)) K (s, c) = K (dropWhile (inClass neg cs) s, c)"
proof -
  have "concat (map K (iter (ms (Cls neg cs)) (length s) (s, c))) = K (dropWhile (inClass neg cs) s, c)"
    by (rule iter_run [OF ms_Cls_Cons ms_Cls_Nil assms]) simp
  then show ?thesis by (simp add: bindK_def del: ms.simps(2))
qed

lemma bindK_Plus_cls:
  assumes "rejects (inClass neg cs) K"
  shows "bindK (Plus (Cls neg cs)) K (s, c) =
         (case many1 (inClass neg cs) s of None \<Rightarrow> [] | Some s' \<Rightarrow> K (s', c))"
proof (cases s)
  case Nil
  then show ?thesis by (simp add: bindK_def many1_def)
next
  case (Cons x xs)
  have "concat (map K (iter (ms (Cls neg cs)) (length xs) (xs, c))) = K (dropWhile (inClass neg cs) xs, c)"
    by (rule iter_run [OF ms_Cls_Cons ms_Cls_Nil assms]) simp
  then show ?thesis using Cons
    by (simp add: bindK_def many1_def ms_Cls_Cons del: ms.simps(2))
qed

lemma ms_Star_cls_head:
  "\<exists>rest. ms (Star (Cls neg cs)) (s, c) = (dropWhile (inClass neg cs) s, c) # rest"
proof -
  have "\<exists>rest. iter (ms (Cls neg cs)) (length s) (s, c) = (dropWhile (inClass neg cs) s, c) # rest"
    by (rule iter_head [OF ms_Cls_Cons ms_Cls_Nil]) simp
  then show ?thesis by (simp del: ms.simps(2))
qed

lemma rejects_Lit: "w \<noteq> [] \<Longrightarrow> \<not> P (hd w) \<Longrightarrow> rejects P (bindK (Lit w) K)"
  by (cases w) (auto simp: rejects_def bindK_def)

lemma rejects_cls: "(\<And>x. P x \<Longrightarrow> \<not> inClass neg cs x) \<Longrightarrow> rejects P (bindK (Plus (Cls neg cs)) K)"
  by (auto simp: rejects_def bindK_def inClass_def)

lemma rejects_EndText: "rejects P (bindK EndText K)"
  by (auto simp: rejects_def bindK_def)

lemma rejects_Alt: "rejects P (bindK a K) \<Longrightarrow> rejects P (bindK b K) \<Longrightarrow> rejects P (bindK (Alt a b) K)"
  by (auto simp: rejects_def bindK_def)

lemma rejects_Seq: "rejects P (bindK a (bindK b K)) \<Longrightarrow> rejects P (bindK (Seq a b) K)"
  by (simp add: bindK_Seq)

section \<open>The import-comment pattern as a scanner\<close>

text \<open>
  The pattern \<open>importCommentRE\<close> leaves the matcher no choice at any point, so what
  \<open>removeImportComment\<close> computes is the result of one scan of the line.
\<close>

definition scanQuoted :: "string \<Rightarrow> string option" where
  "scanQuoted s =
     (case s of
        [] \<Rightarrow> None
      | q # xs \<Rightarrow>
          if q = doubleQuote \<or> q = backQuote
          then (case many1 (\<lambda>x. x \<noteq> q) xs of None \<Rightarrow> None | Some r \<Rightarrow> lit [q] r)
          else None)"

definition isSpace :: "char \<Rightarrow> bool" where
  "isSpace = inClass False spaceChars"

definition isWord :: "char \<Rightarrow> bool" where
  "isWord = inClass False wordChars"

definition scanImport :: "string \<Rightarrow> string option" where
  "scanImport s =
     (case lit ''import'' (dropWhile isSpace s) of
        None \<Rightarrow> None
      | Some a \<Rightarrow>
          (case many1 isSpace a of
             None \<Rightarrow> None
           | Some b \<Rightarrow>
               (case scanQuoted b of None \<Rightarrow> None | Some d \<Rightarrow> Some (dropWhile isSpace d))))"

lemma inClass_not: "inClass True [q] = (\<lambda>x. x \<noteq> q)"
  by (rule ext) (simp add: inClass_def)

lemma quotes_differ: "doubleQuote \<noteq> backQuote"
  by (simp add: doubleQuote_def backQuote_def)

lemma rejects_closing: "rejects (inClass True [q]) (bindK (Lit [q]) K)"
  by (rule rejects_Lit) (simp_all add: inClass_def)

lemma bindK_quoted_one:
  "bindK (cat [Lit [q], Plus (Cls True [q]), Lit [q]]) K (s, c) =
     (case lit [q] s of
        None \<Rightarrow> []
      | Some xs \<Rightarrow>
          (case many1 (\<lambda>x. x \<noteq> q) xs of
             None \<Rightarrow> []
           | Some r \<Rightarrow> (case lit [q] r of None \<Rightarrow> [] | Some s' \<Rightarrow> K (s', c))))"
  by (simp add: bindK_Seq bindK_Lit bindK_Plus_cls [OF rejects_closing] inClass_not
      split: option.splits)

lemma bindK_quotedRE:
  "bindK quotedRE K (s, c) = (case scanQuoted s of None \<Rightarrow> [] | Some s' \<Rightarrow> K (s', c))"
proof (cases s)
  case Nil
  then show ?thesis
    unfolding quotedRE_def bindK_Alt bindK_quoted_one by (simp add: scanQuoted_def lit_def)
next
  case (Cons x xs)
  then show ?thesis
    unfolding quotedRE_def bindK_Alt bindK_quoted_one
    using quotes_differ by (auto simp: scanQuoted_def lit_def split: option.splits)
qed

lemma rejects_quotedRE:
  "\<not> P doubleQuote \<Longrightarrow> \<not> P backQuote \<Longrightarrow> rejects P (bindK quotedRE K)"
  unfolding quotedRE_def
  by (intro rejects_Alt) (simp_all add: bindK_Seq rejects_Lit)

lemma space_not_quote: "\<not> isSpace doubleQuote" "\<not> isSpace backQuote"
  by (simp_all add: isSpace_def inClass_def spaceChars_def doubleQuote_def backQuote_def)

lemma bindK_importRE:
  assumes "rejects isSpace K"
  shows "bindK importRE K (s, c) = (case scanImport s of None \<Rightarrow> [] | Some s' \<Rightarrow> K (s', c))"
proof -
  have 1: "rejects isSpace (bindK (Lit ''import'') K')" for K'
    by (rule rejects_Lit) (simp_all add: isSpace_def inClass_def spaceChars_def)
  have 2: "rejects isSpace (bindK quotedRE K')" for K'
    by (rule rejects_quotedRE) (rule space_not_quote)+
  show ?thesis
    unfolding importRE_def cat.simps bindK_Seq
    by (simp add: bindK_Star_cls [OF 1 [unfolded isSpace_def]]
        bindK_Lit bindK_Plus_cls [OF 2 [unfolded isSpace_def]] bindK_quotedRE
        bindK_Star_cls [OF assms [unfolded isSpace_def]] scanImport_def isSpace_def
        split: option.splits)
qed

definition lineComment :: regex where
  "lineComment = cat [Lit ''//'', importRE, EndText]"

definition blockComment :: regex where
  "blockComment = cat [Lit ''/*'', importRE, Lit ''*/'']"

definition trailing :: regex where
  "trailing = Grp 2 (Star (Cls True [newline]))"

lemma take_takeWhile: "take (length s - length (dropWhile P s)) s = takeWhile P s"
proof -
  have "length (takeWhile P s) + length (dropWhile P s) = length s"
    by (metis length_append takeWhile_dropWhile_id)
  then have "length s - length (dropWhile P s) = length (takeWhile P s)" by simp
  then show ?thesis by (simp add: takeWhile_eq_take [symmetric])
qed

lemma trailing_head:
  "\<exists>rest. ms trailing (s, c) =
     (dropWhile (\<lambda>x. x \<noteq> newline) s, c(2 \<mapsto> takeWhile (\<lambda>x. x \<noteq> newline) s)) # rest"
proof -
  obtain rest where "ms (Star (Cls True [newline])) (s, c) = (dropWhile (inClass True [newline]) s, c) # rest"
    using ms_Star_cls_head by blast
  then show ?thesis
    unfolding trailing_def
    by (simp add: inClass_not take_takeWhile del: ms.simps(5))
qed

lemma bindK_lineComment:
  "bindK lineComment (ms trailing) (s, c) =
     (case lit ''//'' s of
        None \<Rightarrow> []
      | Some r4 \<Rightarrow>
          (case scanImport r4 of
             None \<Rightarrow> []
           | Some r5 \<Rightarrow> if r5 = [] then ms trailing ([], c) else []))"
  unfolding lineComment_def cat.simps bindK_Seq
  by (simp add: bindK_Lit bindK_importRE [OF rejects_EndText] bindK_EndText split: option.splits)

lemma bindK_blockComment:
  "bindK blockComment (ms trailing) (s, c) =
     (case lit ''/*'' s of
        None \<Rightarrow> []
      | Some r4 \<Rightarrow>
          (case scanImport r4 of
             None \<Rightarrow> []
           | Some r5 \<Rightarrow> (case lit ''*/'' r5 of None \<Rightarrow> [] | Some r6 \<Rightarrow> ms trailing (r6, c))))"
proof -
  have "rejects isSpace (bindK (Lit ''*/'') K)" for K
    by (rule rejects_Lit) (simp_all add: isSpace_def inClass_def spaceChars_def)
  then show ?thesis
    unfolding blockComment_def cat.simps bindK_Seq
    by (simp add: bindK_Lit bindK_importRE split: option.splits)
qed

lemma importCommentRE_shape:
  "importCommentRE =
     Seq (Grp 1 (Seq (Lit ''package'') (Seq (Plus (Cls False spaceChars)) (Plus (Cls False wordChars)))))
       (Seq (Plus (Cls False spaceChars)) (Seq (Alt lineComment blockComment) trailing))"
  by (simp add: importCommentRE_def lineComment_def blockComment_def trailing_def)

lemma bindK_final: "bindK r (\<lambda>st'. [st']) = ms r"
  by (rule ext) (simp add: bindK_def)

lemma rejects_after: "rejects P K \<Longrightarrow> rejects P (\<lambda>st'. K (fst st', g st'))"
  by (simp add: rejects_def)

lemma space_not_word: "isSpace x \<Longrightarrow> \<not> isWord x"
  by (auto simp: isSpace_def isWord_def inClass_def spaceChars_def wordChars_def)

lemma word_not_space: "isWord x \<Longrightarrow> \<not> isSpace x"
  using space_not_word by blast

lemma ms_importCommentRE:
  "ms importCommentRE (line, c) =
     (case lit ''package'' line of
        None \<Rightarrow> []
      | Some r0 \<Rightarrow>
          (case many1 isSpace r0 of
             None \<Rightarrow> []
           | Some r1 \<Rightarrow>
               (case many1 isWord r1 of
                  None \<Rightarrow> []
                | Some r2 \<Rightarrow>
                    (case many1 isSpace r2 of
                       None \<Rightarrow> []
                     | Some r3 \<Rightarrow>
                         bindK lineComment (ms trailing)
                           (r3, c(1 \<mapsto> take (length line - length r2) line))
                         @ bindK blockComment (ms trailing)
                           (r3, c(1 \<mapsto> take (length line - length r2) line))))))"
proof -
  let ?K2 = "bindK (Alt lineComment blockComment) (ms trailing)"
  let ?K1 = "bindK (Plus (Cls False spaceChars)) ?K2"
  let ?K1' = "\<lambda>st'. ?K1 (fst st', (snd st')(1 \<mapsto> take (length line - length (fst st')) line))"
  have a: "rejects (inClass False spaceChars) ?K2"
    unfolding lineComment_def blockComment_def
    by (intro rejects_Alt) (simp_all add: bindK_Seq rejects_Lit inClass_def spaceChars_def)
  have b: "rejects (inClass False wordChars) ?K1'"
    by (rule rejects_after, rule rejects_cls) (use word_not_space in \<open>simp add: isSpace_def isWord_def\<close>)
  have d: "rejects (inClass False spaceChars) (bindK (Plus (Cls False wordChars)) ?K1')"
    by (rule rejects_cls) (use space_not_word in \<open>simp add: isSpace_def isWord_def\<close>)
  have "ms importCommentRE (line, c) = bindK importCommentRE (\<lambda>st'. [st']) (line, c)"
    by (rule ms_bindK)
  also have "\<dots> = bindK (Lit ''package'')
      (bindK (Plus (Cls False spaceChars)) (bindK (Plus (Cls False wordChars)) ?K1')) (line, c)"
    unfolding importCommentRE_shape bindK_Seq bindK_Grp
    unfolding bindK_final
    by (simp del: ms.simps)
  also have "\<dots> = (case lit ''package'' line of
        None \<Rightarrow> []
      | Some r0 \<Rightarrow>
          (case many1 isSpace r0 of
             None \<Rightarrow> []
           | Some r1 \<Rightarrow>
               (case many1 isWord r1 of
                  None \<Rightarrow> []
                | Some r2 \<Rightarrow>
                    (case many1 isSpace r2 of
                       None \<Rightarrow> []
                     | Some r3 \<Rightarrow>
                         ?K2 (r3, c(1 \<mapsto> take (length line - length r2) line))))))"
    apply (subst bindK_Lit)
    apply (subst bindK_Plus_cls [OF d])
    apply (subst bindK_Plus_cls [OF b])
    apply (subst bindK_Plus_cls [OF a])
    apply (simp add: isSpace_def isWord_def split: option.splits)
    done
  finally show ?thesis by (simp add: bindK_Alt split: option.splits)
qed

definition scanImportComment :: "string \<Rightarrow> (string \<times> string) option" where
  "scanImportComment line =
     (case lit ''package'' line of
        None \<Rightarrow> None
      | Some r0 \<Rightarrow>
          (case many1 isSpace r0 of
             None \<Rightarrow> None
           | Some r1 \<Rightarrow>
               (case many1 isWord r1 of
                  None \<Rightarrow> None
                | Some r2 \<Rightarrow>
                    (case many1 isSpace r2 of
                       None \<Rightarrow> None
                     | Some r3 \<Rightarrow>
                         (case lit ''//'' r3 of
                            Some r4 \<Rightarrow>
                              (case scanImport r4 of
                                 None \<Rightarrow> None
                               | Some r5 \<Rightarrow>
                                   if r5 = [] then Some (take (length line - length r2) line, [])
                                   else None)
                          | None \<Rightarrow>
                              (case lit ''/*'' r3 of
                                 None \<Rightarrow> None
                               | Some r4 \<Rightarrow>
                                   (case scanImport r4 of
                                      None \<Rightarrow> None
                                    | Some r5 \<Rightarrow>
                                        (case lit ''*/'' r5 of
                                           None \<Rightarrow> None
                                         | Some r6 \<Rightarrow>
                                             Some (take (length line - length r2) line,
                                                   takeWhile (\<lambda>x. x \<noteq> newline) r6)))))))))"

lemma first_append:
  "(case xs @ ys of [] \<Rightarrow> None | st # _ \<Rightarrow> Some (f st)) =
     (case xs of [] \<Rightarrow> (case ys of [] \<Rightarrow> None | st # _ \<Rightarrow> Some (f st)) | st # _ \<Rightarrow> Some (f st))"
  by (cases xs) auto

lemma first_trailing:
  "(case ms trailing (s, c) of [] \<Rightarrow> d | st # _ \<Rightarrow> g st) =
     g (dropWhile (\<lambda>x. x \<noteq> newline) s, c(2 \<mapsto> takeWhile (\<lambda>x. x \<noteq> newline) s))"
  using trailing_head [of s c] by auto

lemma lit_exclusive: "lit ''//'' s = Some a \<Longrightarrow> lit ''/*'' s = None"
  by (auto simp: lit_def)

lemma removeImportComment_scan:
  "removeImportComment line =
     (case scanImportComment line of None \<Rightarrow> None | Some (decl, rest) \<Rightarrow> Some (decl @ rest))"
proof -
  have "FindSubmatch importCommentRE line =
      (case scanImportComment line of
         None \<Rightarrow> None
       | Some (decl, rest) \<Rightarrow> Some (Map.empty(1 \<mapsto> decl, 2 \<mapsto> rest)))"
    unfolding FindSubmatch_def ms_importCommentRE scanImportComment_def
      bindK_lineComment bindK_blockComment
    by (auto simp: first_append first_trailing lit_exclusive split: option.splits)
  then show ?thesis
    by (auto simp: removeImportComment_def submatch_def split: option.splits)
qed

section \<open>The lines the scanner accepts\<close>


















section \<open>The loop of StripImportComment, line by line\<close>

lemma TrimRight_line:
  "newline \<notin> set l \<Longrightarrow> TrimRight (l @ [newline]) [newline] = l"
  by (cases l rule: rev_cases) (auto simp: TrimRight_def)

lemma TrimRight_none:
  "newline \<notin> set l \<Longrightarrow> TrimRight l [newline] = l"
  by (cases l rule: rev_cases) (auto simp: TrimRight_def)

lemma ReadBytes_line:
  "newline \<in> set (pending b)
   \<Longrightarrow> ReadBytes b = (takeWhile (\<lambda>c. c \<noteq> newline) (pending b) @ [newline], None,
         b\<lparr>pending := tl (dropWhile (\<lambda>c. c \<noteq> newline) (pending b))\<rparr>)"
  by (simp add: ReadBytes_def)

lemma ReadBytes_last:
  "newline \<notin> set (pending b)
   \<Longrightarrow> ReadBytes b = (pending b, Some (case failure b of None \<Rightarrow> EOF | Some e \<Rightarrow> e), b\<lparr>pending := []\<rparr>)"
  by (simp add: ReadBytes_def)

lemma unterminated_step:
  "newline \<in> set s \<Longrightarrow> unterminated (tl (dropWhile (\<lambda>c. c \<noteq> newline) s)) = unterminated s"
proof -
  assume "newline \<in> set s"
  then have d: "dropWhile (\<lambda>c. c \<noteq> newline) s \<noteq> []" by (simp add: dropWhile_eq_Nil_conv)
  then have h: "hd (dropWhile (\<lambda>c. c \<noteq> newline) s) = newline"
    using hd_dropWhile [of "\<lambda>c. c \<noteq> newline" s] by simp
  define t where "t = tl (dropWhile (\<lambda>c. c \<noteq> newline) s)"
  have s: "s = takeWhile (\<lambda>c. c \<noteq> newline) s @ newline # t"
    using d h unfolding t_def by (metis takeWhile_dropWhile_id list.collapse)
  have "unterminated (takeWhile (\<lambda>c. c \<noteq> newline) s @ newline # t) = unterminated t"
    by (simp add: unterminated_def)
  then show ?thesis using s t_def by simp
qed

lemma Write_unlimited:
  "budget w = None \<Longrightarrow> Write w p = (w\<lparr>written := written w @ [p]\<rparr>, None)"
  by (simp add: Write_def)

lemma takeWhile_no_newline: "newline \<notin> set (takeWhile (\<lambda>c. c \<noteq> newline) s)"
  by (auto dest: set_takeWhileD)

lemma stripLoop_clean:
  "failure b = None \<Longrightarrow> budget w = None
   \<Longrightarrow> stripLoop b changed w =
       (w\<lparr>written := written w @ map (\<lambda>l. rewriteLine l @ [newline]) (linesOf (pending b))\<rparr>,
        Inr (changed \<or> unterminated (pending b)
             \<or> (\<exists>l \<in> set (linesOf (pending b)). removeImportComment l \<noteq> None)))"
proof (induction "length (pending b)" arbitrary: b changed w rule: less_induct)
  case less
  show ?case
  proof (cases "newline \<in> set (pending b)")
    case True
    define l where "l = takeWhile (\<lambda>c. c \<noteq> newline) (pending b)"
    define b' where "b' = b\<lparr>pending := tl (dropWhile (\<lambda>c. c \<noteq> newline) (pending b))\<rparr>"
    define w' where "w' = w\<lparr>written := written w @ [rewriteLine l @ [newline]]\<rparr>"
    define changed' where "changed' = (changed \<or> removeImportComment l \<noteq> None)"
    have rd: "ReadBytes b = (l @ [newline], None, b')"
      using True by (simp add: ReadBytes_line l_def b'_def)
    have tr: "TrimRight (l @ [newline]) [newline] = l"
      unfolding l_def by (rule TrimRight_line) (rule takeWhile_no_newline)
    have wr: "Write w (rewriteLine l @ [newline]) = (w', None)"
      using less.prems(2) by (simp add: Write_unlimited w'_def)
    have step: "stripLoop b changed w = stripLoop b' changed' w'"
      by (subst stripLoop.simps)
         (auto simp: rd tr Write_unlimited [OF less.prems(2)] w'_def Let_def rewriteLine_def
            changed'_def split: option.splits)
    have "length (pending b') < length (pending b)"
      using rd by (rule ReadBytes_shorter)
    moreover have "failure b' = None" "budget w' = None"
      using less.prems by (simp_all add: b'_def w'_def)
    ultimately have ih: "stripLoop b' changed' w' =
       (w'\<lparr>written := written w' @ map (\<lambda>l. rewriteLine l @ [newline]) (linesOf (pending b'))\<rparr>,
        Inr (changed' \<or> unterminated (pending b')
             \<or> (\<exists>l \<in> set (linesOf (pending b')). removeImportComment l \<noteq> None)))"
      by (rule less.hyps)
    have ne: "pending b \<noteq> []" using True by auto
    have ls: "linesOf (pending b) = l # linesOf (pending b')"
      using True ne by (subst linesOf.simps) (simp add: l_def b'_def)
    have un: "unterminated (pending b') = unterminated (pending b)"
      using unterminated_step [OF True] by (simp add: b'_def)
    show ?thesis
      unfolding step ih ls un by (auto simp: w'_def changed'_def)
  next
    case False
    have rd: "ReadBytes b = (pending b, Some EOF, b\<lparr>pending := []\<rparr>)"
      using False less.prems(1) by (simp add: ReadBytes_last)
    show ?thesis
    proof (cases "pending b = []")
      case True
      then show ?thesis
        by (subst stripLoop.simps) (simp add: rd linesOf.simps unterminated_def)
    next
      case ne: False
      have tr: "TrimRight (pending b) [newline] = pending b"
        using False by (rule TrimRight_none)
      have wr: "Write w (rewriteLine (pending b) @ [newline])
          = (w\<lparr>written := written w @ [rewriteLine (pending b) @ [newline]]\<rparr>, None)"
        using less.prems(2) by (rule Write_unlimited)
      have ls: "linesOf (pending b) = [pending b]"
        using False ne by (subst linesOf.simps) simp
      have un: "unterminated (pending b)"
        unfolding unterminated_def using False ne by (metis last_in_set)
      show ?thesis
        by (subst stripLoop.simps)
           (auto simp: rd tr Write_unlimited [OF less.prems(2)] ls un ne Let_def rewriteLine_def
              split: option.splits)
    qed
  qed
qed

lemma Write_cases:
  "Write w p = (w', e)
   \<Longrightarrow> (e = None \<and> written w' = written w @ [p]) \<or> (e \<noteq> None \<and> w' = w)"
  by (auto simp: Write_def split: option.splits nat.splits)

lemma stripLoop_written:
  "\<exists>ps. written (fst (stripLoop b changed w)) = written w @ ps \<and> list_all terminated ps"
proof (induction "length (pending b)" arbitrary: b changed w rule: less_induct)
  case less
  obtain line err b' where rd: "ReadBytes b = (line, err, b')"
    by (cases "ReadBytes b") auto
  show ?case
  proof (cases "err \<noteq> None \<and> err \<noteq> Some EOF")
    case True
    then have "stripLoop b changed w = (w, Inl (Wrap (the err) ''StripImportComment''))"
      by (subst stripLoop.simps) (simp add: rd)
    then show ?thesis by simp
  next
    case False
    note ok = False
    have next_shorter: "err \<noteq> Some EOF \<Longrightarrow> length (pending b') < length (pending b)"
      using ok rd ReadBytes_shorter by auto
    show ?thesis
    proof (cases "length line > 0")
      case False
      show ?thesis
      proof (cases "err = Some EOF")
        case True
        then have "stripLoop b changed w = (w, Inr changed)"
          using False ok by (subst stripLoop.simps) (simp add: rd)
        then show ?thesis by simp
      next
        case False
        then have "stripLoop b changed w = stripLoop b' changed w"
          using \<open>\<not> length line > 0\<close> ok by (subst stripLoop.simps) (simp add: rd)
        then show ?thesis using less.hyps [OF next_shorter [OF False]] by simp
      qed
    next
      case True
      define nonl where "nonl = TrimRight line [newline]"
      define payload where "payload = rewriteLine nonl @ [newline]"
      define changed2 where "changed2 =
        (case removeImportComment nonl of
           None \<Rightarrow> (if length nonl = length line then True else changed)
         | Some r \<Rightarrow> True)"
      obtain w' werr where wr: "Write w payload = (w', werr)"
        by (cases "Write w payload") auto
      have unfold: "stripLoop b changed w =
          (case werr of
             Some e \<Rightarrow> (w', Inl (Wrap e ''StripImportComment''))
           | None \<Rightarrow> if err = Some EOF then (w', Inr changed2) else stripLoop b' changed2 w')"
        using True ok wr
        by (subst stripLoop.simps)
           (auto simp: rd Let_def nonl_def payload_def rewriteLine_def changed2_def
              split: option.splits)
      have tp: "terminated payload" by (simp add: terminated_def payload_def)
      show ?thesis
      proof (cases werr)
        case (Some e)
        then have "w' = w" using Write_cases [OF wr] by simp
        then show ?thesis using unfold Some by simp
      next
        case None
        then have w': "written w' = written w @ [payload]" using Write_cases [OF wr] by simp
        show ?thesis
        proof (cases "err = Some EOF")
          case True
          then show ?thesis using unfold None w' tp by simp
        next
          case False
          obtain ps where "written (fst (stripLoop b' changed2 w')) = written w' @ ps"
            "list_all terminated ps"
            using less.hyps [OF next_shorter [OF False]] by blast
          then have "written (fst (stripLoop b changed w)) = written w @ (payload # ps)"
            "list_all terminated (payload # ps)"
            using unfold None False w' tp by simp_all
          then show ?thesis by blast
        qed
      qed
    qed
  qed
qed

section \<open>Properties of StripImportComment\<close>

lemma StripImportComment_clean:
  assumes "HasSuffix path ''.go''" and "os_Open (Dir wt) path = Inr r"
    and "failure r = None" and "budget w = None"
  shows "StripImportComment os_Open wt path w =
       (w\<lparr>written := written w @ map (\<lambda>l. rewriteLine l @ [newline]) (linesOf (pending r))\<rparr>,
        Inr (unterminated (pending r)
             \<or> (\<exists>l \<in> set (linesOf (pending r)). removeImportComment l \<noteq> None)))"
  using assms stripLoop_clean [of r w False] by (simp add: StripImportComment_def)




lemma HasSuffix_foo: "HasSuffix ''foo.go'' ''.go''"
  by (simp add: HasSuffix_def)

lemma removeImportComment_func: "removeImportComment ''func f()'' = None"
  by (simp add: removeImportComment_scan scanImportComment_def lit_def)

lemma removeImportComment_clause: "removeImportComment ''package foo'' = None"
  by (simp add: removeImportComment_scan scanImportComment_def lit_def many1_def isSpace_def
      isWord_def inClass_def spaceChars_def wordChars_def)


lemma linesOf_concat:
  "\<not> unterminated s \<Longrightarrow> concat (map (\<lambda>l. l @ [newline]) (linesOf s)) = s"
proof (induction "length s" arbitrary: s rule: less_induct)
  case less
  show ?case
  proof (cases "s = []")
    case True
    then show ?thesis by (simp add: linesOf.simps)
  next
    case False
    then have "last s = newline" using less.prems by (simp add: unterminated_def)
    then have mem: "newline \<in> set s" using False last_in_set by metis
    define t where "t = tl (dropWhile (\<lambda>c. c \<noteq> newline) s)"
    have d: "dropWhile (\<lambda>c. c \<noteq> newline) s \<noteq> []" using mem by (simp add: dropWhile_eq_Nil_conv)
    then have h: "hd (dropWhile (\<lambda>c. c \<noteq> newline) s) = newline"
      using hd_dropWhile [of "\<lambda>c. c \<noteq> newline" s] by simp
    have s: "s = takeWhile (\<lambda>c. c \<noteq> newline) s @ newline # t"
      using d h unfolding t_def by (metis takeWhile_dropWhile_id list.collapse)
    have "length t < length s" unfolding t_def using mem by (rule tl_dropWhile_shorter)
    moreover have "\<not> unterminated t" using unterminated_step [OF mem] less.prems by (simp add: t_def)
    ultimately have ih: "concat (map (\<lambda>l. l @ [newline]) (linesOf t)) = t" by (rule less.hyps)
    have "linesOf s = takeWhile (\<lambda>c. c \<noteq> newline) s # linesOf t"
      using False mem by (subst linesOf.simps) (simp add: t_def)
    then have "concat (map (\<lambda>l. l @ [newline]) (linesOf s)) = takeWhile (\<lambda>c. c \<noteq> newline) s @ newline # t"
      using ih by simp
    then show ?thesis using s by simp
  qed
qed

lemma StripImportComment_written:
  "\<exists>ps. written (fst (StripImportComment os_Open wt path w)) = written w @ ps \<and> list_all terminated ps"
proof (cases "HasSuffix path ''.go''")
  case False
  then show ?thesis by (simp add: StripImportComment_def)
next
  case True
  show ?thesis
  proof (cases "os_Open (Dir wt) path")
    case (Inl err)
    then show ?thesis using True by (simp add: StripImportComment_def)
  next
    case (Inr r)
    then show ?thesis using True stripLoop_written [of r False w] by (simp add: StripImportComment_def)
  qed
qed

text \<open>
  Claim C7. Every byte slice \<open>StripImportComment\<close> hands to the writer ends in a newline,
  whatever the file, the reader and the writer do. On a file with the extension \<open>.go\<close>
  that is read and written without an error: when the last line has no newline, a change
  is reported, also when no line carries an import comment; and when every line ends in a
  newline and none carries an import comment, no change is reported and the bytes written
  are the bytes of the file.
\<close>

theorem StripImportComment_newlines:
  "(\<exists>ps. written (fst (StripImportComment os_Open wt path w)) = written w @ ps
         \<and> list_all terminated ps)
   \<and> (HasSuffix path ''.go'' \<and> os_Open (Dir wt) path = Inr r \<and> failure r = None
        \<and> budget w = None
      \<longrightarrow> (unterminated (pending r) \<longrightarrow> snd (StripImportComment os_Open wt path w) = Inr True)
        \<and> (\<not> unterminated (pending r)
             \<and> (\<forall>l \<in> set (linesOf (pending r)). removeImportComment l = None)
           \<longrightarrow> StripImportComment os_Open wt path w =
                 (w\<lparr>written := written w @ map (\<lambda>l. l @ [newline]) (linesOf (pending r))\<rparr>,
                  Inr False)
             \<and> concat (map (\<lambda>l. l @ [newline]) (linesOf (pending r))) = pending r))"
proof (rule conjI)
  show "\<exists>ps. written (fst (StripImportComment os_Open wt path w)) = written w @ ps
         \<and> list_all terminated ps"
    by (rule StripImportComment_written)
next
  show "HasSuffix path ''.go'' \<and> os_Open (Dir wt) path = Inr r \<and> failure r = None
        \<and> budget w = None
      \<longrightarrow> (unterminated (pending r) \<longrightarrow> snd (StripImportComment os_Open wt path w) = Inr True)
        \<and> (\<not> unterminated (pending r)
             \<and> (\<forall>l \<in> set (linesOf (pending r)). removeImportComment l = None)
           \<longrightarrow> StripImportComment os_Open wt path w =
                 (w\<lparr>written := written w @ map (\<lambda>l. l @ [newline]) (linesOf (pending r))\<rparr>,
                  Inr False)
             \<and> concat (map (\<lambda>l. l @ [newline]) (linesOf (pending r))) = pending r)"
  proof (intro impI, elim conjE)
    assume h: "HasSuffix path ''.go''" "os_Open (Dir wt) path = Inr r" "failure r = None"
      "budget w = None"
    note c = StripImportComment_clean [of path os_Open wt r w, OF h]
    have 1: "unterminated (pending r) \<longrightarrow> snd (StripImportComment os_Open wt path w) = Inr True"
      unfolding c by simp
    have 2: "\<not> unterminated (pending r)
             \<and> (\<forall>l \<in> set (linesOf (pending r)). removeImportComment l = None)
           \<longrightarrow> StripImportComment os_Open wt path w =
                 (w\<lparr>written := written w @ map (\<lambda>l. l @ [newline]) (linesOf (pending r))\<rparr>,
                  Inr False)
             \<and> concat (map (\<lambda>l. l @ [newline]) (linesOf (pending r))) = pending r"
      unfolding c using linesOf_concat [of "pending r"] by (auto simp: rewriteLine_def)
    show "(unterminated (pending r) \<longrightarrow> snd (StripImportComment os_Open wt path w) = Inr True)
        \<and> (\<not> unterminated (pending r)
             \<and> (\<forall>l \<in> set (linesOf (pending r)). removeImportComment l = None)
           \<longrightarrow> StripImportComment os_Open wt path w =
                 (w\<lparr>written := written w @ map (\<lambda>l. l @ [newline]) (linesOf (pending r))\<rparr>,
                  Inr False)
             \<and> concat (map (\<lambda>l. l @ [newline]) (linesOf (pending r))) = pending r)"
      by (rule conjI, rule 1, rule 2)
  qed
qed

theorem StripImportComment_newlines_witness:
  "StripImportComment (fileWith (''package foo'' @ [newline] @ ''func f()'')) checkout ''foo.go'' sink
     = (sink\<lparr>written := [''package foo'' @ [newline], ''func f()'' @ [newline]]\<rparr>, Inr True)
   \<and> StripImportComment (fileWith (''package foo'' @ [newline] @ ''func f()'' @ [newline]))
       checkout ''foo.go'' sink
     = (sink\<lparr>written := [''package foo'' @ [newline], ''func f()'' @ [newline]]\<rparr>, Inr False)"
proof -
  let ?open = "''package foo'' @ [newline] @ ''func f()''"
  let ?closed = "''package foo'' @ [newline] @ ''func f()'' @ [newline]"
  note t1 = StripImportComment_newlines [where path = "''foo.go''" and os_Open = "fileWith ?open"
      and wt = checkout and r = "\<lparr>pending = ?open, failure = None\<rparr>" and w = sink]
  note t2 = StripImportComment_newlines [where path = "''foo.go''" and os_Open = "fileWith ?closed"
      and wt = checkout and r = "\<lparr>pending = ?closed, failure = None\<rparr>" and w = sink]
  have u1: "unterminated ?open" by (simp add: unterminated_def newline_def)
  have u2: "\<not> unterminated ?closed" by (simp add: unterminated_def)
  have l2: "linesOf ?closed = [''package foo'', ''func f()'']"
    by (simp add: linesOf.simps newline_def)
  have changed: "snd (StripImportComment (fileWith ?open) checkout ''foo.go'' sink) = Inr True"
    using t1 HasSuffix_foo u1 by (simp add: fileWith_def sink_def)
  have w1: "StripImportComment (fileWith ?open) checkout ''foo.go'' sink
     = (sink\<lparr>written := [''package foo'' @ [newline], ''func f()'' @ [newline]]\<rparr>, Inr True)"
    using StripImportComment_clean [of "''foo.go''" "fileWith ?open" checkout
        "\<lparr>pending = ?open, failure = None\<rparr>" sink] HasSuffix_foo
    by (simp add: fileWith_def sink_def linesOf.simps newline_def rewriteLine_def
        removeImportComment_func removeImportComment_clause unterminated_def)
  have w2: "StripImportComment (fileWith ?closed) checkout ''foo.go'' sink
     = (sink\<lparr>written := [''package foo'' @ [newline], ''func f()'' @ [newline]]\<rparr>, Inr False)"
    using t2 HasSuffix_foo
    by (simp add: fileWith_def sink_def u2 [simplified] l2 [simplified] removeImportComment_func
        removeImportComment_clause)
  show ?thesis using w1 w2 changed by simp
qed

section \<open>Properties of the sort\<close>







section \<open>Properties of VersionTags\<close>














end

